theory Spec2Isabelle
  imports Main
begin

section \<open>The JavaScript primitives that slcan.js relies on\<close>

text \<open>
  A line is a \<open>string\<close>: one \<open>char\<close> per code unit, which covers the ASCII
  (and Latin-1) text the serial line carries. JavaScript numbers are modelled as
  \<open>int\<close>: a frame's identifier and bytes are integers, and every number the codec
  reads back from a line is below \<open>2 ^ 32\<close>, which a double holds exactly. Numbers
  that are not integers are outside the model.
\<close>

definition substr :: "string \<Rightarrow> nat \<Rightarrow> nat \<Rightarrow> string" where
  \<comment> \<open>\<open>str.substr(start, len)\<close> with \<open>start \<ge> 0\<close>: clipped at the end of the string,
      empty when \<open>start\<close> is past it.\<close>
  "substr str start len = take len (drop start str)"

definition substr_from :: "string \<Rightarrow> nat \<Rightarrow> string" where
  \<comment> \<open>\<open>str.substr(start)\<close> with \<open>start \<ge> 0\<close>: everything from \<open>start\<close> on.\<close>
  "substr_from str start = drop start str"

definition char_at :: "string \<Rightarrow> nat \<Rightarrow> char option" where
  \<comment> \<open>\<open>str[i]\<close>; \<open>None\<close> stands for \<open>undefined\<close>, the value past the end.\<close>
  "char_at str i = (if i < length str then Some (str ! i) else None)"

definition charCode :: "char \<Rightarrow> nat" where
  "charCode c = of_char c"

definition truthy :: "bool option \<Rightarrow> bool" where
  \<comment> \<open>A variable that holds a boolean or is still \<open>undefined\<close> (\<open>None\<close>), used as a
      condition: \<open>undefined\<close> counts as false.\<close>
  "truthy b = (case b of None \<Rightarrow> False | Some v \<Rightarrow> v)"

definition upper_char :: "char \<Rightarrow> char" where
  "upper_char c =
     (if 97 \<le> charCode c \<and> charCode c \<le> 122 then char_of (charCode c - 32) else c)"

definition toUpperCase :: "string \<Rightarrow> string" where
  \<comment> \<open>On the ASCII range, which holds every string the source applies it to
      (a type letter, and the digits of an integer).\<close>
  "toUpperCase s = map upper_char s"

definition digit_char :: "nat \<Rightarrow> char" where
  \<comment> \<open>The digit \<open>d < 36\<close> as \<open>Number.prototype.toString\<close> writes it: lower case.\<close>
  "digit_char d = (if d < 10 then char_of (48 + d) else char_of (87 + d))"

function to_digits :: "nat \<Rightarrow> nat \<Rightarrow> string" where
  "to_digits radix n =
     (if n < radix \<or> radix < 2 then [digit_char n]
      else to_digits radix (n div radix) @ [digit_char (n mod radix)])"
  by pat_completeness auto
termination
  by (relation "measure (\<lambda>(radix, n). n)") auto

declare to_digits.simps [simp del]

definition toString :: "int \<Rightarrow> nat \<Rightarrow> string" where
  \<comment> \<open>\<open>n.toString(radix)\<close> of an integer \<open>n\<close>: a minus sign, then the digits of \<open>|n|\<close>.\<close>
  "toString n radix =
     (if n < 0 then CHR ''-'' # to_digits radix (nat (- n)) else to_digits radix (nat n))"

definition is_white_space :: "char \<Rightarrow> bool" where
  \<comment> \<open>The white space and line terminators that \<open>Number\<close> strips: TAB, LF, VT, FF, CR,
      SP, NBSP.\<close>
  "is_white_space c = (charCode c \<in> {9, 10, 11, 12, 13, 32, 160})"

definition trim :: "string \<Rightarrow> string" where
  "trim s = rev (dropWhile is_white_space (rev (dropWhile is_white_space s)))"

definition digit_val :: "nat \<Rightarrow> char \<Rightarrow> nat option" where
  \<comment> \<open>The value of a digit in radix 10 or 16; hexadecimal digits in either case.\<close>
  "digit_val radix c =
     (let n = charCode c in
      if 48 \<le> n \<and> n \<le> 57 then Some (n - 48)
      else if radix = 16 \<and> 65 \<le> n \<and> n \<le> 70 then Some (n - 55)
      else if radix = 16 \<and> 97 \<le> n \<and> n \<le> 102 then Some (n - 87)
      else None)"

fun digits_value :: "nat \<Rightarrow> nat \<Rightarrow> string \<Rightarrow> nat option" where
  "digits_value radix acc [] = Some acc"
| "digits_value radix acc (c # cs) =
     (case digit_val radix c of
        None \<Rightarrow> None
      | Some d \<Rightarrow> digits_value radix (radix * acc + d) cs)"

definition Number :: "string \<Rightarrow> int option" where
  \<comment> \<open>\<open>Number(s)\<close>, with \<open>None\<close> for NaN: white space is stripped from both ends; the
      empty string is 0; \<open>0x\<close> or \<open>0X\<close> must be followed by at least one hexadecimal
      digit and nothing else; otherwise decimal digits only. The remaining numeric
      forms (a sign, a fraction, an exponent, \<open>Infinity\<close>, \<open>0b\<close>, \<open>0o\<close>) need two
      characters or more and do not begin with \<open>0x\<close>: the source calls \<open>Number\<close> on a
      string of at most one character and on strings that begin with \<open>0x\<close> only.\<close>
  "Number s =
     (let t = trim s in
      if t = [] then Some 0
      else if take 2 t = ''0x'' \<or> take 2 t = ''0X'' then
        (if drop 2 t = [] then None else map_option int (digits_value 16 0 (drop 2 t)))
      else map_option int (digits_value 10 0 t))"

definition isNaN :: "int option \<Rightarrow> bool" where
  "isNaN x = (x = None)"


section \<open>Frames\<close>

text \<open>
  A frame object. \<open>is_remote\<close> holds a boolean or \<open>undefined\<close> (\<open>None\<close>), which
  \<open>_parseFrame\<close> can store there. \<open>id_ext_id\<close> is the property \<open>_parseFrame\<close>
  writes (line 208); \<open>None\<close> is \<open>undefined\<close>, also the value of a property that was
  never written. \<open>timestamp\<close> is \<open>None\<close> until it is set.
\<close>

record Frame =
  frame_id :: int
  is_ext_id :: bool
  is_remote :: "bool option"
  dlc :: int
  data :: "int list"
  timestamp :: "int option"
  id_ext_id :: "bool option"

definition frame :: "int \<Rightarrow> Frame" where
  \<comment> \<open>Modelled from the spec: the constructor of \<open>./frame\<close>, which is not among the
      sources. The spec (4.1): constructed with a numeric identifier, defaults
      standard identifier and data frame, no timestamp. \<open>_parseFrame\<close> overwrites
      \<open>dlc\<close> and \<open>data\<close> of every frame it constructs.\<close>
  "frame i = \<lparr>frame_id = i, is_ext_id = False, is_remote = Some False, dlc = 0,
              data = [], timestamp = None, id_ext_id = None\<rparr>"


section \<open>Errors and the session\<close>

datatype error =
    NotConnected          \<comment> \<open>\<open>throw "Not connected to serial device"\<close>\<close>
  | OpenFailed            \<comment> \<open>\<open>throw "Open Failed! (Bus already open?)"\<close>\<close>
  | BadFrameType string   \<comment> \<open>\<open>throw "Invalid slcand frame! (bad frame type char) ..."\<close>,
                              with the line it dumps\<close>
  | InvalidID             \<comment> \<open>\<open>throw "Invalid ID value"\<close>\<close>
  | InvalidDLC            \<comment> \<open>\<open>throw "Invalid DLC value"\<close>\<close>
  | InvalidDataByte nat   \<comment> \<open>\<open>throw "Invalid data byte at position " + i\<close>\<close>
  | TypeError             \<comment> \<open>raised by the runtime: a property read on \<open>undefined\<close>
                              or \<open>null\<close>\<close>
  | AppError string       \<comment> \<open>whatever the application's callback throws\<close>

function debugStr :: "string \<Rightarrow> nat \<Rightarrow> string \<Rightarrow> string" where
  \<comment> \<open>The loop of lines 172 to 174.\<close>
  "debugStr str i acc =
     (if i < length str
      then debugStr str (i + 1) (acc @ ''['' @ toString (int (charCode (str ! i))) 10 @ '']'')
      else acc)"
  by pat_completeness auto
termination
  by (relation "measure (\<lambda>(str, i, acc). length str - i)") auto

declare debugStr.simps [simp del]

definition CR :: char where
  "CR = CHR 0x0D"

definition LF :: char where
  "LF = CHR 0x0A"

definition message :: "error \<Rightarrow> string option" where
  \<comment> \<open>The string thrown; \<open>None\<close> for the TypeError, an object of the runtime.\<close>
  "message e =
     (case e of
        NotConnected \<Rightarrow> Some ''Not connected to serial device''
      | OpenFailed \<Rightarrow> Some ''Open Failed! (Bus already open?)''
      | BadFrameType str \<Rightarrow>
          Some (''Invalid slcand frame! (bad frame type char) ''
            @ debugStr str 0
                (''-> ascii: '' @ [CHR 0x27] @ str @ [CHR 0x27] @ ''   char_codes: '')
            @ [CR, LF])
      | InvalidID \<Rightarrow> Some ''Invalid ID value''
      | InvalidDLC \<Rightarrow> Some ''Invalid DLC value''
      | InvalidDataByte i \<Rightarrow> Some (''Invalid data byte at position '' @ toString (int i) 10)
      | TypeError \<Rightarrow> None
      | AppError s \<Rightarrow> Some s)"

definition CMD_OPEN_BUS :: string where
  "CMD_OPEN_BUS = [CHR ''O'', CR]"

definition STD_ID_LEN :: nat where
  "STD_ID_LEN = 3"

definition EXT_ID_LEN :: nat where
  "EXT_ID_LEN = 8"

text \<open>
  The serial port is the transport, outside the module: the model keeps what the
  session asks of it, the strings written and the number of flushes.
\<close>

record SerialPort =
  path :: string
  written :: "string list"
  flushes :: nat

text \<open>
  The session object. \<open>conn\<close> is \<open>None\<close> for \<open>null\<close>, \<open>lastCMD\<close> too. The
  application's callback answers \<open>None\<close> when it returns and \<open>Some e\<close> when it
  throws \<open>e\<close>.
\<close>

record slcan =
  dev_str :: string
  speed :: int
  conn :: "SerialPort option"
  recv_count :: int
  recv_str :: string
  lastCMD :: "string option"
  recvFrameCallback :: "Frame \<Rightarrow> error option"

definition new_slcan :: "string \<Rightarrow> int \<Rightarrow> (Frame \<Rightarrow> error option) \<Rightarrow> slcan" where
  \<comment> \<open>The constructor, lines 26 to 41.\<close>
  "new_slcan d sp cb =
     \<lparr>dev_str = d, speed = sp, conn = None, recv_count = 0, recv_str = [],
      lastCMD = None, recvFrameCallback = cb\<rparr>"

text \<open>What a handler does to the outside, in order.\<close>

datatype event =
    ConsoleLog string       \<comment> \<open>\<open>console.log\<close> of a string\<close>
  | ConsoleLogError error   \<comment> \<open>\<open>console.log\<close> of a caught value\<close>
  | Received Frame          \<comment> \<open>a call of \<open>recvFrameCallback\<close>\<close>

section \<open>The codec\<close>

definition frame_type :: "slcan \<Rightarrow> string \<Rightarrow> error + bool option \<times> bool option" where
  \<comment> \<open>Lines 153 to 176: the values of the variables \<open>is_ext_id\<close> and \<open>is_remote\<close>
      after the first character is read, or the value thrown. Both stay \<open>undefined\<close>
      when the character is BEL and the last command is not the open command. On the
      empty line \<open>str[0]\<close> is \<open>undefined\<close>, and \<open>str[0].charCodeAt\<close> is a TypeError.\<close>
  "frame_type this str =
     (if char_at str 0 = Some CHR ''t'' then Inr (Some False, Some False)
      else if char_at str 0 = Some CHR ''r'' then Inr (Some False, Some True)
      else if char_at str 0 = Some CHR ''T'' then Inr (Some True, Some False)
      else if char_at str 0 = Some CHR ''R'' then Inr (Some True, Some True)
      else
        (case char_at str 0 of
           None \<Rightarrow> Inl TypeError
         | Some c \<Rightarrow>
             if charCode c = 7 then
               (if lastCMD this = Some CMD_OPEN_BUS then Inl OpenFailed else Inr (None, None))
             else Inl (BadFrameType str)))"

function parse_data :: "string \<Rightarrow> bool option \<Rightarrow> int \<Rightarrow> nat \<Rightarrow> int list \<Rightarrow> error + int list" where
  \<comment> \<open>The loop of lines 196 to 205, from index \<open>i\<close> with the bytes pushed so far.\<close>
  "parse_data str ext n i bytes =
     (if int i < n then
        (let pos = (if truthy ext then 2 + EXT_ID_LEN + i * 2 else 2 + STD_ID_LEN + i * 2);
             b = Number (''0x'' @ substr str pos 2)
         in if isNaN b then Inl (InvalidDataByte i)
            else parse_data str ext n (i + 1) (bytes @ [the b]))
      else Inr bytes)"
  by pat_completeness auto
termination
  by (relation "measure (\<lambda>(str, ext, n, i, bytes). nat (n - int i))") auto

declare parse_data.simps [simp del]

definition parseFrame :: "slcan \<Rightarrow> string \<Rightarrow> error + Frame" where
  \<comment> \<open>\<open>slcan.prototype._parseFrame\<close>, lines 144 to 214.\<close>
  "parseFrame this str =
     (case frame_type this str of
        Inl e \<Rightarrow> Inl e
      | Inr (ext, remote) \<Rightarrow>
          (let i = Number (''0x'' @ (if truthy ext then substr str 1 EXT_ID_LEN
                                     else substr str 1 STD_ID_LEN))
           in if isNaN i then Inl InvalidID
              else
                (let n = Number (if truthy ext then substr str (1 + EXT_ID_LEN) 1
                                 else substr str (1 + STD_ID_LEN) 1)
                 in if isNaN n \<or> the n < 0 \<or> the n > 8 then Inl InvalidDLC
                    else
                      (case parse_data str ext (the n) 0 [] of
                         Inl e \<Rightarrow> Inl e
                       | Inr bytes \<Rightarrow>
                           Inr ((frame (the i))
                                  \<lparr>id_ext_id := ext, is_remote := remote,
                                   dlc := the n, data := bytes\<rparr>)))))"

function pack_data :: "Frame \<Rightarrow> nat \<Rightarrow> string \<Rightarrow> string" where
  \<comment> \<open>The loop of lines 246 to 250, from index \<open>i\<close> with the line built so far. It
      runs after line 240, so \<open>dlc\<close> is at most the length of \<open>data\<close> and each read
      \<open>data[i]\<close> is within the array.\<close>
  "pack_data f i res =
     (if int i < dlc f then
        (let byte_str = ''0'' @ toUpperCase (toString (data f ! i) 16)
         in pack_data f (i + 1) (res @ substr_from byte_str (length byte_str - 2)))
      else res)"
  by pat_completeness auto
termination
  by (relation "measure (\<lambda>(f, i, res). nat (dlc f - int i))") auto

declare pack_data.simps [simp del]

definition packFrame :: "Frame \<Rightarrow> string \<times> Frame" where
  \<comment> \<open>\<open>slcan.prototype._packFrame\<close>, lines 222 to 255: the line returned, and the
      frame as the call leaves it (line 240 assigns \<open>dlc\<close>). \<open>id_str\<close> has 8
      characters or more and \<open>byte_str\<close> 2 or more, so no \<open>substr\<close> starts at a
      negative index.\<close>
  "packFrame f0 =
     (let res = (if truthy (is_remote f0) then ''r'' else ''t'');
          res = (if is_ext_id f0 then toUpperCase res else res);
          id_str = ''0000000'' @ toString (frame_id f0) 16;
          res = (if is_ext_id f0
                 then res @ toUpperCase (substr_from id_str (length id_str - EXT_ID_LEN))
                 else res @ toUpperCase (substr_from id_str (length id_str - STD_ID_LEN)));
          f = f0\<lparr>dlc := (if length (data f0) > 8 then 8 else int (length (data f0)))\<rparr>;
          res = res @ toString (dlc f) 10;
          res = pack_data f 0 res;
          res = res @ [CR]
      in (res, f))"


section \<open>The session\<close>

definition "open" :: "slcan \<Rightarrow> slcan" where
  \<comment> \<open>Lines 63 to 73: a new port on the device. The line splitter it pipes the port
      into and the events are the transport's; the handlers it registers are
      \<open>serialOpenCallback\<close> and \<open>serialRecvCallback\<close> below.\<close>
  "open this = this\<lparr>conn := Some \<lparr>path = dev_str this, written = [], flushes = 0\<rparr>\<rparr>"

definition serialWrite :: "slcan \<Rightarrow> string \<Rightarrow> error option \<times> slcan" where
  \<comment> \<open>\<open>_serialWrite\<close>, lines 97 to 101: the slot is assigned first, then the write;
      on \<open>null\<close> the write is a TypeError.\<close>
  "serialWrite this0 str =
     (let this = this0\<lparr>lastCMD := Some str\<rparr>
      in case conn this of
           None \<Rightarrow> (Some TypeError, this)
         | Some c \<Rightarrow> (None, this\<lparr>conn := Some (c\<lparr>written := written c @ [str]\<rparr>)\<rparr>))"

definition send :: "slcan \<Rightarrow> Frame \<Rightarrow> error option \<times> slcan \<times> Frame" where
  \<comment> \<open>Lines 80 to 90: the value thrown if any, the session and the frame as the call
      leaves them.\<close>
  "send this f =
     (if conn this = None then (Some NotConnected, this, f)
      else
        (let (slcan_str, f') = packFrame f;
             (e, this') = serialWrite this slcan_str
         in (e, this', f')))"

definition serialOpenCallback :: "slcan \<Rightarrow> error option \<times> slcan \<times> event list" where
  \<comment> \<open>\<open>_serialOpenCallback\<close>, lines 109 to 116. The port calls it, so there is one.\<close>
  "serialOpenCallback this0 =
     (let out = [ConsoleLog (''connected to device '' @ dev_str this0)]
      in case conn this0 of
           None \<Rightarrow> (Some TypeError, this0, out)
         | Some c \<Rightarrow>
             (let this = this0\<lparr>conn := Some (c\<lparr>flushes := flushes c + 1\<rparr>)\<rparr>;
                  (e, this) = serialWrite this (''S'' @ toString (speed this) 10 @ [CR])
              in case e of
                   Some x \<Rightarrow> (Some x, this, out)
                 | None \<Rightarrow>
                     (let (e, this) = serialWrite this (''O'' @ [CR]) in (e, this, out))))"

definition serialRecvCallback :: "slcan \<Rightarrow> int \<Rightarrow> string \<Rightarrow> event list" where
  \<comment> \<open>\<open>_serialRecvCallback\<close>, lines 124 to 136, when \<open>Date.now()\<close> answers \<open>now\<close>: what
      the handler does, in order. Whatever the \<open>try\<close> block throws is caught and
      logged, the callback's own exceptions included. The session is not written.\<close>
  "serialRecvCallback this now line =
     (case parseFrame this line of
        Inl err \<Rightarrow> [ConsoleLogError err]
      | Inr f0 \<Rightarrow>
          (let f = f0\<lparr>timestamp := Some now\<rparr>
           in case recvFrameCallback this f of
                None \<Rightarrow> [Received f]
              | Some err \<Rightarrow> [Received f, ConsoleLogError err]))"


section \<open>The example application\<close>

definition parseCanPacket :: "Frame \<Rightarrow> error option" where
  \<comment> \<open>The callback of example/testcan.js: it prints the frame and returns.\<close>
  "parseCanPacket f = None"

definition canbus :: slcan where
  "canbus = new_slcan ''/dev/cu.usbmodem1431'' 5 parseCanPacket"

definition myCanFrame :: Frame where
  "myCanFrame = (frame 0x81)\<lparr>data := [50, 0, 133, 0x64, 0x11, 0x3, 0x00, 0x00]\<rparr>"


section \<open>The pieces of a packed line\<close>

definition type_str :: "Frame \<Rightarrow> string" where
  "type_str f =
     (if is_ext_id f then (if truthy (is_remote f) then ''R'' else ''T'')
      else (if truthy (is_remote f) then ''r'' else ''t''))"

definition id_len :: "Frame \<Rightarrow> nat" where
  "id_len f = (if is_ext_id f then EXT_ID_LEN else STD_ID_LEN)"

definition id_field :: "int \<Rightarrow> nat \<Rightarrow> string" where
  \<comment> \<open>Lines 231 to 237 for an identifier field of \<open>w\<close> characters.\<close>
  "id_field i w =
     (let id_str = ''0000000'' @ toString i 16
      in toUpperCase (substr_from id_str (length id_str - w)))"

definition pack_dlc :: "Frame \<Rightarrow> int" where
  \<comment> \<open>Line 240.\<close>
  "pack_dlc f = (if length (data f) > 8 then 8 else int (length (data f)))"

definition byte_field :: "int \<Rightarrow> string" where
  \<comment> \<open>Lines 248 and 249: the two characters appended for one byte.\<close>
  "byte_field b =
     (let byte_str = ''0'' @ toUpperCase (toString b 16)
      in substr_from byte_str (length byte_str - 2))"

fun calls :: "event list \<Rightarrow> Frame list" where
  \<comment> \<open>The frames the application's callback was called with, in order.\<close>
  "calls [] = []"
| "calls (Received f # es) = f # calls es"
| "calls (e # es) = calls es"


section \<open>Packing\<close>

lemma to_digits_nonempty: "to_digits radix n \<noteq> []"
  by (subst to_digits.simps) simp

lemma toString_nonempty: "toString n radix \<noteq> []"
  by (simp add: toString_def to_digits_nonempty)

lemma length_toUpperCase [simp]: "length (toUpperCase s) = length s"
  by (simp add: toUpperCase_def)

lemma toUpperCase_append [simp]: "toUpperCase (a @ b) = toUpperCase a @ toUpperCase b"
  by (simp add: toUpperCase_def)

lemma length_byte_field: "length (byte_field b) = 2"
proof -
  obtain c cs where "toString b 16 = c # cs"
    using toString_nonempty [of b 16] by (cases "toString b 16") auto
  then show ?thesis
    by (simp add: byte_field_def Let_def substr_from_def)
qed

lemma length_id_field: "w \<le> 8 \<Longrightarrow> length (id_field i w) = w"
proof -
  assume w: "w \<le> 8"
  obtain c cs where "toString i 16 = c # cs"
    using toString_nonempty [of i 16] by (cases "toString i 16") auto
  with w show ?thesis
    by (simp add: id_field_def Let_def substr_from_def)
qed

lemma length_concat_byte_fields: "length (concat (map byte_field bs)) = 2 * length bs"
  by (induction bs) (simp_all add: length_byte_field)

lemma pack_data_eq:
  "nat (dlc f) \<le> length (data f) \<Longrightarrow>
   pack_data f i res = res @ concat (map byte_field (drop i (take (nat (dlc f)) (data f))))"
proof (induction f i res rule: pack_data.induct)
  case (1 f i res)
  show ?case
  proof (cases "int i < dlc f")
    case True
    then have i: "i < nat (dlc f)" by simp
    with "1.prems" have "i < length (take (nat (dlc f)) (data f))" by simp
    then have d: "drop i (take (nat (dlc f)) (data f)) =
        data f ! i # drop (Suc i) (take (nat (dlc f)) (data f))"
      using i by (simp add: Cons_nth_drop_Suc [symmetric])
    define x where "x = ''0'' @ toUpperCase (toString (data f ! i) 16)"
    have b: "substr_from x (length x - 2) = byte_field (data f ! i)"
      by (simp add: byte_field_def Let_def x_def)
    have "pack_data f i res = pack_data f (i + 1) (res @ substr_from x (length x - 2))"
      using True by (subst pack_data.simps) (simp add: Let_def x_def)
    also have "\<dots> = (res @ substr_from x (length x - 2)) @
        concat (map byte_field (drop (i + 1) (take (nat (dlc f)) (data f))))"
      using "1.IH" [OF True x_def "1.prems"] .
    finally show ?thesis by (simp add: d b)
  next
    case False
    then have "nat (dlc f) \<le> i" by simp
    then show ?thesis using False by (subst pack_data.simps) simp
  qed
qed

lemma toString_digit:
  assumes "0 \<le> n" "n < 10"
  shows "toString n 10 = [char_of (48 + nat n)]"
proof -
  have "nat n < 10" using assms by simp
  then show ?thesis
    using assms by (simp add: toString_def to_digits.simps [of 10 "nat n"] digit_char_def)
qed

lemma pack_dlc_range: "0 \<le> pack_dlc f \<and> pack_dlc f \<le> 8"
  by (simp add: pack_dlc_def)

lemma pack_dlc_min: "pack_dlc f = min (int (length (data f))) 8"
  by (simp add: pack_dlc_def)

lemma packFrame_snd: "snd (packFrame f) = f\<lparr>dlc := pack_dlc f\<rparr>"
  by (simp add: packFrame_def Let_def pack_dlc_def)

lemma packFrame_fst:
  "fst (packFrame f) =
     type_str f @ id_field (frame_id f) (id_len f) @ toString (pack_dlc f) 10
     @ concat (map byte_field (take 8 (data f))) @ [CR]"
proof -
  let ?g = "f\<lparr>dlc := pack_dlc f\<rparr>"
  have n: "nat (dlc ?g) \<le> length (data ?g)"
    by (simp add: pack_dlc_def)
  have t: "take (nat (pack_dlc f)) (data f) = take 8 (data f)"
    by (simp add: pack_dlc_def)
  have u: "toUpperCase ''r'' = ''R''" "toUpperCase ''t'' = ''T''"
    by code_simp+
  show ?thesis
    using pack_data_eq [OF n, of 0] t
    by (simp add: packFrame_def Let_def pack_dlc_def [symmetric] type_str_def id_len_def
        id_field_def u)
qed

lemma length_type_str: "length (type_str f) = 1"
  by (simp add: type_str_def)

lemma id_len_le: "id_len f \<le> 8"
  by (simp add: id_len_def EXT_ID_LEN_def STD_ID_LEN_def)

lemma length_pack_dlc_str: "length (toString (pack_dlc f) 10) = 1"
  using pack_dlc_range [of f] by (simp add: toString_digit)

text \<open>
  C6. Whatever the frame holds (any identifier, type flags and data), the line that
  \<open>_packFrame\<close> returns has at most 27 characters and ends with a carriage return.
\<close>

theorem pack_output_bound:
  "length (fst (packFrame f)) \<le> 27 \<and> last (fst (packFrame f)) = CR"
proof -
  have "length (take 8 (data f)) \<le> 8" by simp
  then have "length (concat (map byte_field (take 8 (data f)))) \<le> 16"
    unfolding length_concat_byte_fields by linarith
  moreover have "length (id_field (frame_id f) (id_len f)) \<le> 8"
    using id_len_le [of f] by (simp add: length_id_field)
  ultimately show ?thesis
    by (simp add: packFrame_fst length_type_str length_pack_dlc_str)
qed

text \<open>
  C7. \<open>_packFrame\<close> assigns \<open>min(len(data), 8)\<close> to the frame's \<open>dlc\<close>, whatever it held,
  and writes no other field. In the line, the character after the identifier field is
  that \<open>dlc\<close> as a digit, and what follows it is the two-character fields of the first
  \<open>dlc\<close> bytes of \<open>data\<close> and the carriage return, nothing more: of nine bytes the first
  eight are written. Packing the frame again gives the same line and the same frame.
\<close>

theorem pack_sets_dlc:
  "snd (packFrame f) = f\<lparr>dlc := min (int (length (data f))) 8\<rparr>
   \<and> fst (packFrame f) ! (1 + id_len f) = char_of (48 + nat (dlc (snd (packFrame f))))
   \<and> drop (2 + id_len f) (fst (packFrame f)) =
       concat (map byte_field (take (nat (dlc (snd (packFrame f)))) (data f))) @ [CR]
   \<and> packFrame (snd (packFrame f)) = packFrame f"
proof -
  have l: "length (id_field (frame_id f) (id_len f)) = id_len f"
    using id_len_le [of f] by (simp add: length_id_field)
  have t: "take (nat (pack_dlc f)) (data f) = take 8 (data f)"
    by (simp add: pack_dlc_def)
  have d: "toString (pack_dlc f) 10 = [char_of (48 + nat (pack_dlc f))]"
    using pack_dlc_range [of f] by (simp add: toString_digit)
  have a: "snd (packFrame f) = f\<lparr>dlc := min (int (length (data f))) 8\<rparr>"
    by (simp add: packFrame_snd pack_dlc_min)
  have b: "fst (packFrame f) ! (1 + id_len f) = char_of (48 + nat (dlc (snd (packFrame f))))"
    by (simp add: packFrame_fst packFrame_snd length_type_str l d nth_append)
  have c: "drop (2 + id_len f) (fst (packFrame f)) =
       concat (map byte_field (take (nat (dlc (snd (packFrame f)))) (data f))) @ [CR]"
    by (simp add: packFrame_fst packFrame_snd length_type_str l d t)
  have e: "packFrame (snd (packFrame f)) = packFrame f"
    by (simp add: packFrame_snd packFrame_def Let_def)
  from a b c e show ?thesis by blast
qed

section \<open>Numbers written and read back\<close>

lemma digit_val_upper_digit_char:
  "d < 16 \<Longrightarrow> digit_val 16 (upper_char (digit_char d)) = Some d"
  by (auto simp add: digit_val_def upper_char_def digit_char_def charCode_def Let_def)

lemma digits_value_append:
  "digits_value radix acc (xs @ ys) =
     (case digits_value radix acc xs of None \<Rightarrow> None | Some v \<Rightarrow> digits_value radix v ys)"
  by (induction xs arbitrary: acc) (simp_all split: option.split)

lemma digits_value_to_digits:
  "digits_value 16 0 (toUpperCase (to_digits 16 n)) = Some n"
proof (induction "16::nat" n rule: to_digits.induct)
  case (1 n)
  show ?case
  proof (cases "n < 16")
    case True
    then show ?thesis
      by (subst to_digits.simps) (simp add: toUpperCase_def digit_val_upper_digit_char)
  next
    case False
    then have ih: "digits_value 16 0 (toUpperCase (to_digits 16 (n div 16))) = Some (n div 16)"
      using 1 by simp
    have "n mod 16 < 16" by simp
    then have d: "digit_val 16 (upper_char (digit_char (n mod 16))) = Some (n mod 16)"
      by (rule digit_val_upper_digit_char)
    have "to_digits 16 n = to_digits 16 (n div 16) @ [digit_char (n mod 16)]"
      using False by (subst to_digits.simps) simp
    then show ?thesis
      using ih d by (simp add: digits_value_append) (simp add: toUpperCase_def)
  qed
qed

lemma digits_value_zeros:
  "digits_value 16 0 (replicate k CHR ''0'' @ s) = digits_value 16 0 s"
  by (induction k) (simp_all add: digit_val_def charCode_def)

lemma length_to_digits:
  "n < 16 ^ k \<Longrightarrow> 0 < k \<Longrightarrow> length (to_digits 16 n) \<le> k"
proof (induction k arbitrary: n)
  case 0
  then show ?case by simp
next
  case (Suc k)
  show ?case
  proof (cases "n < 16")
    case True
    then show ?thesis by (subst to_digits.simps) simp
  next
    case False
    then have k: "0 < k" using Suc.prems by (cases k) auto
    have "n div 16 < 16 ^ k"
      using Suc.prems by (simp add: less_mult_imp_div_less mult.commute)
    then have "length (to_digits 16 (n div 16)) \<le> k"
      using Suc.IH k by simp
    then show ?thesis
      using False by (subst to_digits.simps) simp
  qed
qed

lemma length_to_digits_pos: "Suc 0 \<le> length (to_digits radix n)"
  using to_digits_nonempty [of radix n] by (cases "to_digits radix n") auto

lemma drop_zeros:
  "length h \<le> w \<Longrightarrow> w \<le> k + length h \<Longrightarrow>
   drop (k + length h - w) (replicate k CHR ''0'' @ h) = replicate (w - length h) CHR ''0'' @ h"
  by (simp add: drop_replicate) 

lemma digit_not_white_space: "digit_val radix c = Some d \<Longrightarrow> \<not> is_white_space c"
  by (auto simp add: digit_val_def is_white_space_def Let_def split: if_splits)

lemma digits_value_all_digits:
  "digits_value radix acc s = Some v \<Longrightarrow> c \<in> set s \<Longrightarrow> \<exists>d. digit_val radix c = Some d"
  by (induction s arbitrary: acc) (auto split: option.splits)

lemma trim_id:
  "s \<noteq> [] \<Longrightarrow> \<not> is_white_space (hd s) \<Longrightarrow> \<not> is_white_space (last s) \<Longrightarrow> trim s = s"
proof -
  assume s: "s \<noteq> []" and h: "\<not> is_white_space (hd s)" and l: "\<not> is_white_space (last s)"
  from s h have a: "dropWhile is_white_space s = s"
    by (cases s) simp_all
  from s l have b: "dropWhile is_white_space (rev s) = rev s"
    by (cases "rev s") (simp_all add: last_rev [symmetric] hd_rev)
  show ?thesis by (simp add: trim_def a b)
qed

lemma Number_0x:
  assumes "digits_value 16 0 F = Some n" "F \<noteq> []"
  shows "Number (''0x'' @ F) = Some (int n)"
proof -
  have "last F \<in> set F" using assms(2) by simp
  then obtain d where "digit_val 16 (last F) = Some d"
    using digits_value_all_digits [OF assms(1)] by blast
  then have l: "\<not> is_white_space (last (''0x'' @ F))"
    using assms(2) by (simp add: digit_not_white_space)
  have h: "\<not> is_white_space (hd (''0x'' @ F))"
    by (simp add: is_white_space_def charCode_def)
  have "trim (''0x'' @ F) = ''0x'' @ F"
    using trim_id [OF _ h l] by simp
  then show ?thesis
    using assms by (simp add: Number_def)
qed

lemma toString_nat: "0 \<le> i \<Longrightarrow> toString i 16 = to_digits 16 (nat i)"
  by (simp add: toString_def)

lemma zeros7: "''0000000'' = replicate 7 CHR ''0''"
  by (simp add: numeral_eq_Suc)

lemma zeros_upper: "toUpperCase (replicate k CHR ''0'') = replicate k CHR ''0''"
  by (simp add: toUpperCase_def upper_char_def charCode_def)

lemma Number_id_field:
  assumes "0 \<le> i" "i < 16 ^ w" "0 < w" "w \<le> 8"
  shows "Number (''0x'' @ id_field i w) = Some i"
proof -
  let ?h = "to_digits 16 (nat i)"
  have "nat i < 16 ^ w" using assms by (simp add: nat_less_iff)
  then have lh: "length ?h \<le> w" using assms(3) by (rule length_to_digits)
  have w7: "w \<le> 7 + length ?h"
    using assms(4) length_to_digits_pos [of 16 "nat i"] by linarith
  have "id_field i w = toUpperCase (drop (7 + length ?h - w) (replicate 7 CHR ''0'' @ ?h))"
    using assms(1) by (simp add: id_field_def Let_def substr_from_def toString_nat zeros7)
  also have "\<dots> = replicate (w - length ?h) CHR ''0'' @ toUpperCase ?h"
    by (simp only: drop_zeros [OF lh w7] toUpperCase_append zeros_upper)
  finally have e: "id_field i w = replicate (w - length ?h) CHR ''0'' @ toUpperCase ?h" .
  have v: "digits_value 16 0 (id_field i w) = Some (nat i)"
    by (simp only: e digits_value_zeros digits_value_to_digits)
  have ne: "id_field i w \<noteq> []"
    using assms(3,4) length_id_field [of w i] by auto
  show ?thesis
    using Number_0x [OF v ne] assms(1) by simp
qed

lemma Number_byte_field:
  assumes "0 \<le> b" "b \<le> 255"
  shows "Number (''0x'' @ byte_field b) = Some b"
proof -
  let ?h = "to_digits 16 (nat b)"
  have "nat b < 16 ^ 2" using assms by simp
  then have lh: "length ?h \<le> 2" by (rule length_to_digits) simp
  have w1: "2 \<le> 1 + length ?h"
    using length_to_digits_pos [of 16 "nat b"] by linarith
  have "byte_field b = drop (1 + length ?h - 2) (replicate 1 CHR ''0'' @ toUpperCase ?h)"
    using assms(1) by (simp add: byte_field_def Let_def substr_from_def toString_nat)
  also have "\<dots> = replicate (2 - length ?h) CHR ''0'' @ toUpperCase ?h"
    using drop_zeros [of "toUpperCase ?h" 2 1] lh w1 by simp
  finally have e: "byte_field b = replicate (2 - length ?h) CHR ''0'' @ toUpperCase ?h" .
  have v: "digits_value 16 0 (byte_field b) = Some (nat b)"
    by (simp only: e digits_value_zeros digits_value_to_digits)
  have ne: "byte_field b \<noteq> []"
    using length_byte_field [of b] by auto
  show ?thesis
    using Number_0x [OF v ne] assms(1) by simp
qed

lemma Number_dlc_digit:
  assumes "0 \<le> n" "n \<le> 8"
  shows "Number (toString n 10) = Some n"
proof -
  have t: "toString n 10 = [char_of (48 + nat n)]"
    using assms by (simp add: toString_digit)
  have c: "charCode (char_of (48 + nat n)) = 48 + nat n"
    using assms by (simp add: charCode_def)
  have w: "\<not> is_white_space (char_of (48 + nat n))"
    using assms by (simp add: is_white_space_def c)
  have "trim [char_of (48 + nat n)] = [char_of (48 + nat n)]"
    using w by (simp add: trim_def)
  then show ?thesis
    using assms by (simp add: Number_def t digit_val_def c Let_def)
qed


section \<open>Parsing a packed line\<close>

lemma substr_field: "length a = n \<Longrightarrow> length b = m \<Longrightarrow> substr (a @ b @ c) n m = b"
  by (simp add: substr_def)

lemma byte_fields_nth:
  "i < length bs \<Longrightarrow>
   take 2 (drop (i * 2) (concat (map byte_field bs) @ rest)) = byte_field (bs ! i)"
proof (induction bs arbitrary: i)
  case Nil
  then show ?case by simp
next
  case (Cons b bs)
  show ?case
  proof (cases i)
    case 0
    then show ?thesis by (simp add: length_byte_field)
  next
    case (Suc j)
    then have "j < length bs" using Cons.prems by simp
    then show ?thesis
      using Cons.IH [of j] Suc by (simp add: length_byte_field)
  qed
qed

lemma parse_data_ok:
  assumes "\<And>j. j < length bs \<Longrightarrow>
      Number (''0x'' @ substr str
        (if truthy ext then 2 + EXT_ID_LEN + j * 2 else 2 + STD_ID_LEN + j * 2) 2) = Some (bs ! j)"
  shows "i \<le> length bs \<Longrightarrow>
     parse_data str ext (int (length bs)) i acc = Inr (acc @ drop i bs)"
proof (induction "length bs - i" arbitrary: i acc)
  case 0
  then have "i = length bs" by simp
  then show ?case by (subst parse_data.simps) simp
next
  case (Suc k)
  then have i: "i < length bs" by simp
  have k: "k = length bs - (i + 1)" using Suc.hyps(2) by simp
  have "parse_data str ext (int (length bs)) i acc
      = parse_data str ext (int (length bs)) (i + 1) (acc @ [bs ! i])"
    using i assms [OF i] by (subst parse_data.simps) (simp add: Let_def isNaN_def)
  also have "\<dots> = Inr ((acc @ [bs ! i]) @ drop (i + 1) bs)"
    using Suc.hyps(1) [OF k] i by simp
  finally show ?case
    using i by (simp add: Cons_nth_drop_Suc)
qed

lemma parseFrame_fields:
  assumes ft: "frame_type this (T @ I @ D @ concat (map byte_field bs) @ R) = Inr (ext, rem)"
    and lT: "length T = 1"
    and lI: "length I = (if truthy ext then EXT_ID_LEN else STD_ID_LEN)"
    and lD: "length D = 1"
    and nI: "Number (''0x'' @ I) = Some i"
    and nD: "Number D = Some (int (length bs))"
    and len: "length bs \<le> 8"
    and bytes: "\<forall>b\<in>set bs. 0 \<le> b \<and> b \<le> 255"
  shows "parseFrame this (T @ I @ D @ concat (map byte_field bs) @ R) =
     Inr ((frame i)\<lparr>id_ext_id := ext, is_remote := rem, dlc := int (length bs), data := bs\<rparr>)"
proof -
  let ?B = "concat (map byte_field bs)"
  let ?str = "T @ I @ D @ ?B @ R"
  let ?w = "if truthy ext then EXT_ID_LEN else STD_ID_LEN"
  have sI: "substr ?str 1 ?w = I"
    using substr_field [OF lT lI] by simp
  have "substr ((T @ I) @ D @ ?B @ R) (1 + ?w) 1 = D"
    by (rule substr_field) (simp_all add: lT lI lD)
  then have sD: "substr ?str (1 + ?w) 1 = D" by simp
  have sB: "substr ?str (2 + ?w + j * 2) 2 = byte_field (bs ! j)" if "j < length bs" for j
  proof -
    have "drop (2 + ?w + j * 2) ((T @ I @ D) @ ?B @ R) = drop (j * 2) (?B @ R)"
      by (simp only: drop_append) (simp add: lT lI lD)
    then show ?thesis
      using byte_fields_nth [OF that, of R] by (simp add: substr_def)
  qed
  have "Number (''0x'' @ substr ?str
        (if truthy ext then 2 + EXT_ID_LEN + j * 2 else 2 + STD_ID_LEN + j * 2) 2) = Some (bs ! j)"
    if "j < length bs" for j
  proof -
    have "bs ! j \<in> set bs" using that by simp
    then have "0 \<le> bs ! j \<and> bs ! j \<le> 255" using bytes by blast
    then have "Number (''0x'' @ byte_field (bs ! j)) = Some (bs ! j)"
      using Number_byte_field [of "bs ! j"] by blast
    then show ?thesis using sB [OF that] by (cases "truthy ext") simp_all
  qed
  then have pd: "parse_data ?str ext (int (length bs)) 0 [] = Inr bs"
    using parse_data_ok [of bs ?str ext 0 "[]"] by simp
  have a: "(if truthy ext then substr ?str 1 EXT_ID_LEN else substr ?str 1 STD_ID_LEN) = I"
    using sI by (cases "truthy ext") simp_all
  have b: "(if truthy ext then substr ?str (1 + EXT_ID_LEN) 1 else substr ?str (1 + STD_ID_LEN) 1) = D"
    using sD by (cases "truthy ext") simp_all
  show ?thesis
    unfolding parseFrame_def ft using len
    by (simp only: a b nI nD pd Let_def isNaN_def sum.case prod.case option.sel) simp
qed

lemma frame_type_std:
  "\<not> is_ext_id f \<Longrightarrow> is_remote f = Some b \<Longrightarrow>
   frame_type this (type_str f @ rest) = Inr (Some False, Some b)"
  by (cases b) (simp_all add: frame_type_def type_str_def truthy_def char_at_def)

text \<open>
  C4. Standard-identifier round trip: for a frame with \<open>is_ext_id = false\<close>, \<open>is_remote\<close>
  either boolean, an identifier in 0..0x7FF and at most 8 data bytes, each in 0..255,
  parsing the packed line (as packed, or with its carriage return stripped as the line
  splitter delivers it) returns a frame with the same \<open>id\<close>, \<open>is_ext_id\<close>,
  \<open>is_remote\<close> and \<open>data\<close>, and \<open>dlc = len(data)\<close>.
\<close>

theorem std_roundtrip:
  assumes "\<not> is_ext_id f" and "is_remote f = Some b"
    and "0 \<le> frame_id f" and "frame_id f \<le> 0x7FF"
    and "length (data f) \<le> 8" and "\<forall>x\<in>set (data f). 0 \<le> x \<and> x \<le> 255"
  shows "\<exists>r. parseFrame this (fst (packFrame f)) = Inr r
     \<and> parseFrame this (butlast (fst (packFrame f))) = Inr r
     \<and> frame_id r = frame_id f \<and> is_ext_id r = is_ext_id f \<and> is_remote r = is_remote f
     \<and> dlc r = int (length (data f)) \<and> data r = data f"
proof -
  let ?T = "type_str f"
  let ?I = "id_field (frame_id f) (id_len f)"
  let ?D = "toString (pack_dlc f) 10"
  let ?r = "(frame (frame_id f))\<lparr>id_ext_id := Some False, is_remote := Some b,
      dlc := int (length (data f)), data := data f\<rparr>"
  have w: "id_len f = STD_ID_LEN" using assms(1) by (simp add: id_len_def)
  have p: "pack_dlc f = int (length (data f))" using assms(5) by (simp add: pack_dlc_def)
  have t: "take 8 (data f) = data f" using assms(5) by simp
  have line: "fst (packFrame f) = ?T @ ?I @ ?D @ concat (map byte_field (data f)) @ [CR]"
    by (simp add: packFrame_fst t)
  then have line': "butlast (fst (packFrame f)) = ?T @ ?I @ ?D @ concat (map byte_field (data f)) @ []"
    by (simp add: butlast_append)
  have lI: "length ?I = (if truthy (Some False) then EXT_ID_LEN else STD_ID_LEN)"
    by (simp add: w length_id_field STD_ID_LEN_def truthy_def)
  have nI: "Number (''0x'' @ ?I) = Some (frame_id f)"
    using assms(3,4) Number_id_field [of "frame_id f" 3] by (simp add: w STD_ID_LEN_def)
  have nD: "Number ?D = Some (int (length (data f)))"
    using assms(5) by (simp add: p Number_dlc_digit)
  have lD: "length ?D = 1" by (rule length_pack_dlc_str)
  have a: "parseFrame this (fst (packFrame f)) = Inr ?r"
    unfolding line
    by (rule parseFrame_fields [OF frame_type_std [OF assms(1,2)] length_type_str lI lD nI nD
          assms(5,6)])
  have b: "parseFrame this (butlast (fst (packFrame f))) = Inr ?r"
    unfolding line'
    by (rule parseFrame_fields [OF frame_type_std [OF assms(1,2)] length_type_str lI lD nI nD
          assms(5,6)])
  have "frame_id ?r = frame_id f \<and> is_ext_id ?r = is_ext_id f \<and> is_remote ?r = is_remote f
     \<and> dlc ?r = int (length (data f)) \<and> data ?r = data f"
    using assms(1,2) by (simp add: frame_def)
  with a b show ?thesis by blast
qed

theorem std_roundtrip_witness:
  "\<not> is_ext_id myCanFrame \<and> is_remote myCanFrame = Some False
   \<and> 0 \<le> frame_id myCanFrame \<and> frame_id myCanFrame \<le> 0x7FF
   \<and> length (data myCanFrame) \<le> 8 \<and> set (data myCanFrame) \<subseteq> {0..255}
   \<and> (\<exists>r. parseFrame canbus (fst (packFrame myCanFrame)) = Inr r
     \<and> parseFrame canbus (butlast (fst (packFrame myCanFrame))) = Inr r
     \<and> frame_id r = 0x81 \<and> is_ext_id r = False \<and> is_remote r = Some False
     \<and> dlc r = 8 \<and> data r = [50, 0, 133, 0x64, 0x11, 0x3, 0x00, 0x00])"
proof -
  have h: "\<not> is_ext_id myCanFrame" "is_remote myCanFrame = Some False"
    "0 \<le> frame_id myCanFrame" "frame_id myCanFrame \<le> 0x7FF"
    "length (data myCanFrame) \<le> 8" "\<forall>x\<in>set (data myCanFrame). 0 \<le> x \<and> x \<le> 255"
    by (simp_all add: myCanFrame_def frame_def)
  show ?thesis
    using h std_roundtrip [OF h, of canbus] by (simp add: myCanFrame_def frame_def)
qed

section \<open>The extended round trip\<close>

lemma frame_type_ext:
  "is_ext_id f \<Longrightarrow> is_remote f = Some b \<Longrightarrow>
   frame_type this (type_str f @ rest) = Inr (Some True, Some b)"
  by (cases b) (simp_all add: frame_type_def type_str_def truthy_def char_at_def)

lemma ext_roundtrip_fields:
  assumes "is_ext_id f" and "is_remote f = Some b"
    and "0 \<le> frame_id f" and "frame_id f \<le> 0x1FFFFFFF"
    and "length (data f) \<le> 8" and "\<forall>x\<in>set (data f). 0 \<le> x \<and> x \<le> 255"
  shows "parseFrame this (fst (packFrame f)) =
     Inr ((frame (frame_id f))\<lparr>id_ext_id := Some True, is_remote := Some b,
            dlc := int (length (data f)), data := data f\<rparr>)"
proof -
  let ?T = "type_str f"
  let ?I = "id_field (frame_id f) (id_len f)"
  let ?D = "toString (pack_dlc f) 10"
  have w: "id_len f = EXT_ID_LEN" using assms(1) by (simp add: id_len_def)
  have p: "pack_dlc f = int (length (data f))" using assms(5) by (simp add: pack_dlc_def)
  have t: "take 8 (data f) = data f" using assms(5) by simp
  have line: "fst (packFrame f) = ?T @ ?I @ ?D @ concat (map byte_field (data f)) @ [CR]"
    by (simp add: packFrame_fst t)
  have lI: "length ?I = (if truthy (Some True) then EXT_ID_LEN else STD_ID_LEN)"
    by (simp add: w length_id_field EXT_ID_LEN_def truthy_def)
  have nI: "Number (''0x'' @ ?I) = Some (frame_id f)"
    using assms(3,4) Number_id_field [of "frame_id f" 8] by (simp add: w EXT_ID_LEN_def)
  have nD: "Number ?D = Some (int (length (data f)))"
    using assms(5) by (simp add: p Number_dlc_digit)
  have lD: "length ?D = 1" by (rule length_pack_dlc_str)
  show ?thesis
    unfolding line
    by (rule parseFrame_fields [OF frame_type_ext [OF assms(1,2)] length_type_str lI lD nI nD
          assms(5,6)])
qed

lemma ext_roundtrip_is_ext_id_false:
  assumes "is_ext_id f" and "is_remote f = Some b"
    and "0 \<le> frame_id f" and "frame_id f \<le> 0x1FFFFFFF"
    and "length (data f) \<le> 8" and "\<forall>x\<in>set (data f). 0 \<le> x \<and> x \<le> 255"
  shows "\<exists>r. parseFrame this (fst (packFrame f)) = Inr r \<and> \<not> is_ext_id r
     \<and> id_ext_id r = Some True"
  using ext_roundtrip_fields [OF assms] by (simp add: frame_def)

text \<open>
  C1. Extended-identifier round trip, at the frame with identifier 1, \<open>is_ext_id = true\<close>,
  a data frame without data. It is packed as \<open>T000000010\<close> and a carriage return, and
  parsing that line returns a frame with \<open>is_ext_id = false\<close>: line 208 stores the flag
  in a property named \<open>id_ext_id\<close>, and \<open>is_ext_id\<close> keeps the constructor's default.
  The identifier, \<open>is_remote\<close>, \<open>dlc\<close> and \<open>data\<close> do come back, for every extended
  frame in range (\<open>ext_roundtrip_fields\<close>).
\<close>

theorem ext_roundtrip_loses_is_ext_id:
  "parseFrame this (fst (packFrame ((frame 1)\<lparr>is_ext_id := True\<rparr>))) =
     Inr \<lparr>frame_id = 1, is_ext_id = False, is_remote = Some False, dlc = 0,
          data = [], timestamp = None, id_ext_id = Some True\<rparr>"
  by code_simp


section \<open>BEL\<close>

lemma bel_not_after_open:
  "lastCMD this \<noteq> Some CMD_OPEN_BUS \<Longrightarrow> parseFrame this [CHR 0x07] = Inl InvalidID"
proof -
  assume "lastCMD this \<noteq> Some CMD_OPEN_BUS"
  then have "frame_type this [CHR 0x07] = Inr (None, None)"
    by (simp add: frame_type_def char_at_def charCode_def)
  moreover have "Number (''0x'' @ substr [CHR 0x07] 1 STD_ID_LEN) = None"
    by code_simp
  ultimately show ?thesis
    by (simp add: parseFrame_def truthy_def isNaN_def)
qed

lemma bel_after_open:
  "lastCMD this = Some CMD_OPEN_BUS \<Longrightarrow> parseFrame this (CHR 0x07 # rest) = Inl OpenFailed"
  by (simp add: parseFrame_def frame_type_def char_at_def charCode_def)

text \<open>
  C2. A line that is the single character BEL. After the open handshake the last command
  is \<open>O\<close> and a carriage return, and parsing the line throws the open-failed error.
  After a data frame was sent the last command is its packed line, no branch throws for
  BEL, the variables \<open>is_ext_id\<close> and \<open>is_remote\<close> stay undefined, and the identifier
  field read after BEL is empty: the error thrown is "Invalid ID value", not the one
  for a bad frame type character.
\<close>

theorem bel_after_data_frame:
  "lastCMD (fst (snd (serialOpenCallback (open canbus)))) = Some CMD_OPEN_BUS
   \<and> parseFrame (fst (snd (serialOpenCallback (open canbus)))) [CHR 0x07] = Inl OpenFailed
   \<and> lastCMD (fst (snd (send (open canbus) myCanFrame))) = Some (fst (packFrame myCanFrame))
   \<and> parseFrame (fst (snd (send (open canbus) myCanFrame))) [CHR 0x07] = Inl InvalidID"
  by code_simp


section \<open>The data length code\<close>

lemma Number_single:
  "\<not> is_white_space c \<Longrightarrow> Number [c] = map_option int (digit_val 10 c)"
  by (cases "digit_val 10 c") (simp_all add: Number_def trim_def)

lemma dlc_rejected:
  assumes "frame_type this str = Inr (ext, rem)"
    and "\<not> isNaN (Number (''0x'' @ (if truthy ext then substr str 1 EXT_ID_LEN
                                      else substr str 1 STD_ID_LEN)))"
    and "(if truthy ext then substr str (1 + EXT_ID_LEN) 1
          else substr str (1 + STD_ID_LEN) 1) = [c]"
    and "\<not> is_white_space c"
    and "digit_val 10 c = None \<or> digit_val 10 c = Some 9"
  shows "parseFrame this str = Inl InvalidDLC"
proof -
  define n where "n = Number (if truthy ext then substr str (1 + EXT_ID_LEN) 1
                              else substr str (1 + STD_ID_LEN) 1)"
  have "n = map_option int (digit_val 10 c)"
    unfolding n_def assms(3) using assms(4) by (rule Number_single)
  then have bad: "isNaN n \<or> the n < 0 \<or> the n > 8"
    using assms(5) by (auto simp add: isNaN_def)
  show ?thesis
    unfolding parseFrame_def assms(1) Let_def
    using assms(2) bad [unfolded n_def] by simp
qed

text \<open>
  C3. The line \<open>t123\<close> ends after the identifier field. The DLC slice is the empty
  string, \<open>Number\<close> of it is 0 and not NaN, the check of line 192 passes, and a frame
  with \<open>dlc = 0\<close> and no data is returned: no error is thrown. A DLC character that is
  there, is not white space and is not one of the digits 0 to 8 is rejected
  (\<open>dlc_rejected\<close>).
\<close>

theorem dlc_absent_accepted:
  "parseFrame this ''t123'' =
     Inr \<lparr>frame_id = 0x123, is_ext_id = False, is_remote = Some False, dlc = 0,
          data = [], timestamp = None, id_ext_id = Some False\<rparr>"
  by code_simp


section \<open>What parsing can throw\<close>

lemma parse_data_error:
  "parse_data str ext n i acc = Inl e \<Longrightarrow> \<exists>j. e = InvalidDataByte j"
proof (induction str ext n i acc rule: parse_data.induct)
  case (1 str ext n i bytes)
  from "1.prems" show ?case
    by (subst (asm) parse_data.simps) (auto simp add: Let_def split: if_splits dest: "1.IH")
qed

lemma parse_nonempty_errors:
  assumes "str \<noteq> []" and "parseFrame this str = Inl e"
  shows "e = OpenFailed \<or> e = BadFrameType str \<or> e = InvalidID \<or> e = InvalidDLC
     \<or> (\<exists>j. e = InvalidDataByte j)"
proof -
  have ft: "frame_type this str = Inl x \<Longrightarrow> x = OpenFailed \<or> x = BadFrameType str" for x
    using assms(1)
    by (cases str) (auto simp add: frame_type_def char_at_def split: if_splits)
  show ?thesis
    using assms(2) ft parse_data_error
    unfolding parseFrame_def
    by (fastforce simp add: Let_def split: sum.splits prod.splits if_splits)
qed

text \<open>
  C5. On the empty line \<open>str[0]\<close> is undefined, the four comparisons fail, and
  \<open>str[0].charCodeAt(0)\<close> raises a TypeError: not one of the errors that \<open>_parseFrame\<close>
  throws itself. A line that is not empty gives a frame or one of those
  (\<open>parse_nonempty_errors\<close>).
\<close>

theorem parse_empty_line:
  "parseFrame this [] = Inl TypeError"
  by (simp add: parseFrame_def frame_type_def char_at_def)


section \<open>Characters after the last field\<close>

lemma substr_append:
  "a + b \<le> length str \<Longrightarrow> substr (str @ extra) a b = substr str a b"
  by (simp add: substr_def)

lemma frame_type_append:
  "char_at str 0 = Some c \<Longrightarrow> c \<in> set ''trTR'' \<Longrightarrow>
   frame_type this (str @ extra) = frame_type this str"
  by (cases str) (auto simp add: frame_type_def char_at_def)

lemma frame_type_letter:
  "char_at str 0 = Some c \<Longrightarrow> c \<in> set ''trTR'' \<Longrightarrow>
   frame_type this str = Inr (Some (c \<in> set ''TR''), Some (c \<in> set ''rR''))"
  by (cases str) (auto simp add: frame_type_def char_at_def)

lemma parse_data_append:
  "2 + (if truthy ext then EXT_ID_LEN else STD_ID_LEN) + 2 * nat n \<le> length str \<Longrightarrow>
   parse_data (str @ extra) ext n i acc = parse_data str ext n i acc"
proof (induction str ext n i acc rule: parse_data.induct)
  case (1 str ext n i bytes)
  show ?case
  proof (cases "int i < n")
    case True
    let ?pos = "if truthy ext then 2 + EXT_ID_LEN + i * 2 else 2 + STD_ID_LEN + i * 2"
    have "?pos + 2 \<le> length str"
      using True "1.prems" by (cases "truthy ext") simp_all
    then have s: "substr (str @ extra) ?pos 2 = substr str ?pos 2"
      by (rule substr_append)
    show ?thesis
    proof (cases "isNaN (Number (''0x'' @ substr str ?pos 2))")
      case nan: True
      then show ?thesis
        using True s
        by (subst parse_data.simps, subst (2) parse_data.simps) (simp add: Let_def)
    next
      case False
      have "parse_data (str @ extra) ext n (i + 1)
              (bytes @ [the (Number (''0x'' @ substr str ?pos 2))]) =
            parse_data str ext n (i + 1) (bytes @ [the (Number (''0x'' @ substr str ?pos 2))])"
        using "1.IH" [OF True refl refl False "1.prems"] .
      then show ?thesis
        using True False s
        by (subst parse_data.simps, subst (2) parse_data.simps) (simp add: Let_def)
    qed
  next
    case False
    then show ?thesis
      by (subst parse_data.simps, subst (2) parse_data.simps) simp
  qed
qed

text \<open>
  C10, as amended. A line that begins with t, r, T or R, is parsed to a frame, and is
  at least as long as its fields at their full widths (the type letter, 3 or 8
  identifier characters, the DLC character and two characters for each of the \<open>dlc\<close>
  bytes): with any characters appended it is parsed to the same frame.
\<close>

theorem trailing_input_ignored:
  assumes c: "char_at str 0 = Some c" "c \<in> set ''trTR''"
    and ok: "parseFrame this str = Inr f"
    and len: "2 + (if c \<in> set ''TR'' then EXT_ID_LEN else STD_ID_LEN) + 2 * nat (dlc f)
               \<le> length str"
  shows "parseFrame this (str @ extra) = Inr f"
proof -
  let ?ext = "Some (c \<in> set ''TR'')"
  let ?w = "if truthy ?ext then EXT_ID_LEN else STD_ID_LEN"
  have ft: "frame_type this str = Inr (?ext, Some (c \<in> set ''rR''))"
    using c by (rule frame_type_letter)
  have ft': "frame_type this (str @ extra) = frame_type this str"
    using c by (rule frame_type_append)
  have w: "?w = (if c \<in> set ''TR'' then EXT_ID_LEN else STD_ID_LEN)"
    by (simp add: truthy_def)
  have l: "2 + ?w + 2 * nat (dlc f) \<le> length str"
    using len unfolding w .
  have sI: "substr (str @ extra) 1 ?w = substr str 1 ?w"
    using l by (intro substr_append) linarith
  have sD: "substr (str @ extra) (1 + ?w) 1 = substr str (1 + ?w) 1"
    using l by (intro substr_append) linarith
  have a: "(if truthy ?ext then substr (str @ extra) 1 EXT_ID_LEN
            else substr (str @ extra) 1 STD_ID_LEN) =
           (if truthy ?ext then substr str 1 EXT_ID_LEN else substr str 1 STD_ID_LEN)"
    using sI by (cases "truthy ?ext") simp_all
  have b: "(if truthy ?ext then substr (str @ extra) (1 + EXT_ID_LEN) 1
            else substr (str @ extra) (1 + STD_ID_LEN) 1) =
           (if truthy ?ext then substr str (1 + EXT_ID_LEN) 1
            else substr str (1 + STD_ID_LEN) 1)"
    using sD by (cases "truthy ?ext") simp_all
  define n where "n = Number (if truthy ?ext then substr str (1 + EXT_ID_LEN) 1
                              else substr str (1 + STD_ID_LEN) 1)"
  have d: "dlc f = the n"
    using ok unfolding parseFrame_def ft n_def
    by (auto simp add: Let_def split: if_splits sum.splits)
  have pd: "parse_data (str @ extra) ?ext (the n) 0 [] = parse_data str ?ext (the n) 0 []"
    using l d by (intro parse_data_append) simp
  have "parseFrame this (str @ extra) = parseFrame this str"
    unfolding parseFrame_def ft' ft prod.case sum.case a b Let_def
    using pd [unfolded n_def] by (simp only:)
  then show ?thesis using ok by simp
qed

theorem trailing_input_ignored_witness:
  "char_at ''t12310F'' 0 = Some CHR ''t'' \<and> CHR ''t'' \<in> set ''trTR''
   \<and> parseFrame canbus ''t12310F'' =
       Inr \<lparr>frame_id = 0x123, is_ext_id = False, is_remote = Some False, dlc = 1,
            data = [15], timestamp = None, id_ext_id = Some False\<rparr>
   \<and> parseFrame canbus (''t12310F'' @ ''00'') =
       Inr \<lparr>frame_id = 0x123, is_ext_id = False, is_remote = Some False, dlc = 1,
            data = [15], timestamp = None, id_ext_id = Some False\<rparr>"
proof -
  let ?f = "\<lparr>frame_id = 0x123, is_ext_id = False, is_remote = Some False, dlc = 1,
            data = [15], timestamp = None, id_ext_id = Some False\<rparr>"
  have a: "char_at ''t12310F'' 0 = Some CHR ''t''" by (simp add: char_at_def)
  have b: "CHR ''t'' \<in> set ''trTR''" by simp
  have p: "parseFrame canbus ''t12310F'' = Inr ?f" by code_simp
  have l: "2 + (if CHR ''t'' \<in> set ''TR'' then EXT_ID_LEN else STD_ID_LEN) + 2 * nat (dlc ?f)
               \<le> length ''t12310F''"
    by (simp add: STD_ID_LEN_def)
  show ?thesis
    using a p trailing_input_ignored [OF a b p l, of "''00''"] by simp
qed

text \<open>
  C10 as stated fails on a line whose last field is cut short: \<open>t12310\<close> has one
  character in its data byte field and is parsed with the byte 0; with \<open>F\<close> appended the
  byte is 15.
\<close>

theorem trailing_input_counterexample:
  "parseFrame canbus ''t12310'' =
       Inr \<lparr>frame_id = 0x123, is_ext_id = False, is_remote = Some False, dlc = 1,
            data = [0], timestamp = None, id_ext_id = Some False\<rparr>
   \<and> parseFrame canbus (''t12310'' @ ''F'') =
       Inr \<lparr>frame_id = 0x123, is_ext_id = False, is_remote = Some False, dlc = 1,
            data = [15], timestamp = None, id_ext_id = Some False\<rparr>
   \<and> parseFrame canbus (''t12310'' @ ''F'') \<noteq> parseFrame canbus ''t12310''"
proof -
  have a: "parseFrame canbus ''t12310'' =
       Inr \<lparr>frame_id = 0x123, is_ext_id = False, is_remote = Some False, dlc = 1,
            data = [0], timestamp = None, id_ext_id = Some False\<rparr>"
    by code_simp
  have b: "parseFrame canbus (''t12310'' @ ''F'') =
       Inr \<lparr>frame_id = 0x123, is_ext_id = False, is_remote = Some False, dlc = 1,
            data = [15], timestamp = None, id_ext_id = Some False\<rparr>"
    by code_simp
  show ?thesis unfolding a b by simp
qed


section \<open>The session's handlers\<close>

lemma send_connected:
  "conn this = Some c \<Longrightarrow>
   send this f =
     (None,
      this\<lparr>lastCMD := Some (fst (packFrame f)),
           conn := Some (c\<lparr>written := written c @ [fst (packFrame f)]\<rparr>)\<rparr>,
      snd (packFrame f))"
  by (simp add: send_def serialWrite_def Let_def split: prod.split)

text \<open>
  C8. A line received. When it is parsed to a frame, the application's callback is called
  once, with that frame and its \<open>timestamp\<close> set to the current time. When parsing
  throws, the error is logged, nothing else happens, and the callback is not called.
\<close>

theorem line_received:
  "(parseFrame this line = Inr f0 \<longrightarrow>
      calls (serialRecvCallback this now line) = [f0\<lparr>timestamp := Some now\<rparr>])
   \<and> (parseFrame this line = Inl err \<longrightarrow>
      serialRecvCallback this now line = [ConsoleLogError err]
      \<and> calls (serialRecvCallback this now line) = [])"
  by (simp add: serialRecvCallback_def Let_def split: option.split)

theorem line_received_witness:
  "parseFrame canbus ''t1230'' =
     Inr \<lparr>frame_id = 0x123, is_ext_id = False, is_remote = Some False, dlc = 0,
          data = [], timestamp = None, id_ext_id = Some False\<rparr>
   \<and> calls (serialRecvCallback canbus 1000 ''t1230'') =
     [\<lparr>frame_id = 0x123, is_ext_id = False, is_remote = Some False, dlc = 0,
       data = [], timestamp = Some 1000, id_ext_id = Some False\<rparr>]
   \<and> parseFrame canbus ''tXYZ0'' = Inl InvalidID
   \<and> serialRecvCallback canbus 1000 ''tXYZ0'' = [ConsoleLogError InvalidID]
   \<and> calls (serialRecvCallback canbus 1000 ''tXYZ0'') = []"
proof -
  have a: "parseFrame canbus ''t1230'' =
     Inr \<lparr>frame_id = 0x123, is_ext_id = False, is_remote = Some False, dlc = 0,
          data = [], timestamp = None, id_ext_id = Some False\<rparr>"
    by code_simp
  have b: "parseFrame canbus ''tXYZ0'' = Inl InvalidID"
    by code_simp
  show ?thesis
    using a b
      line_received [where this = canbus and line = "''t1230''" and now = 1000
        and err = InvalidID]
      line_received [where this = canbus and line = "''tXYZ0''" and now = 1000
        and err = InvalidID and ?f0.0 = myCanFrame]
    by simp
qed

text \<open>
  C9. While the session has no connection (\<open>open\<close> has not run), \<open>send\<close> throws
  "Not connected to serial device" and leaves the session, its last command included,
  and the frame as they were: nothing is written.
\<close>

theorem send_before_open:
  "conn this = None \<Longrightarrow> send this f = (Some NotConnected, this, f)"
  by (simp add: send_def)

theorem send_before_open_witness:
  "conn canbus = None \<and> send canbus myCanFrame = (Some NotConnected, canbus, myCanFrame)"
  using send_before_open [of canbus myCanFrame] by (simp add: canbus_def new_slcan_def)

end
